theory Spec2Isabelle
  imports Complex_Main "HOL-Library.AList"
begin

section \<open>Rate limiters and schema translation of \<^verbatim>\<open>verl/tools/utils/mcp_clients/utils.py\<close>\<close>

text \<open>
  The module holds three token-bucket rate limiters (\<^verbatim>\<open>TokenBucket\<close>, \<^verbatim>\<open>RPMBucket\<close>,
  \<^verbatim>\<open>CallBucket\<close>) and the function \<^verbatim>\<open>mcp2openai\<close>.

  Modelling decisions, the same for all three limiters:
  \<^item> Python floats are modelled as \<^typ>\<open>real\<close>: the arithmetic is exact, rounding is not
    modelled.
  \<^item> \<^verbatim>\<open>time.time()\<close> is an input: the constructor and every method take the clock reading
    \<open>now\<close> as an argument.
  \<^item> Every method body runs under \<^verbatim>\<open>self.lock\<close>, so calls on one bucket are serialised;
    a method is a function from the state before the call to the returned value and the
    state after it.
\<close>

subsection \<open>TokenBucket\<close>

record TokenBucket =
  rate_limit :: real
  tokens :: real
  last_update :: real

text \<open>\<^verbatim>\<open>TokenBucket.__init__(self, rate_limit)\<close>, with the clock reading \<open>now\<close>.\<close>

definition TokenBucket_init :: "real \<Rightarrow> real \<Rightarrow> TokenBucket" where
  "TokenBucket_init r now = \<lparr>rate_limit = r, tokens = r, last_update = now\<rparr>"

text \<open>\<^verbatim>\<open>TokenBucket.acquire\<close>: the refill, the update of the time stamp, then the admission test.\<close>

definition TokenBucket_acquire :: "TokenBucket \<Rightarrow> real \<Rightarrow> bool \<times> TokenBucket" where
  "TokenBucket_acquire s now =
     (let new_tokens = (now - last_update s) * rate_limit s;
          s1 = s\<lparr>tokens := min (rate_limit s) (tokens s + new_tokens)\<rparr>;
          s2 = s1\<lparr>last_update := now\<rparr>
      in if tokens s2 \<ge> 1 then (True, s2\<lparr>tokens := tokens s2 - 1\<rparr>) else (False, s2))"

text \<open>
  A sequence of \<^verbatim>\<open>acquire\<close> calls, one at each clock reading of the list: the returned
  value and the state after each call, in order.
\<close>

fun TokenBucket_run :: "TokenBucket \<Rightarrow> real list \<Rightarrow> (bool \<times> TokenBucket) list" where
  "TokenBucket_run s [] = []"
| "TokenBucket_run s (now # ts) =
     (let r = TokenBucket_acquire s now in r # TokenBucket_run (snd r) ts)"

text \<open>The value that line 36 stores in \<^verbatim>\<open>self.tokens\<close>: the budget after the refill.\<close>

definition TokenBucket_refilled :: "TokenBucket \<Rightarrow> real \<Rightarrow> real" where
  "TokenBucket_refilled s now =
     min (rate_limit s) (tokens s + (now - last_update s) * rate_limit s)"

subsection \<open>RPMBucket\<close>

record RPMBucket =
  RPM :: real
  rate_limit :: real
  current_request :: real
  last_update :: real

definition RPMBucket_init :: "real \<Rightarrow> real \<Rightarrow> RPMBucket" where
  "RPMBucket_init r now =
     \<lparr>RPM = r * 60, rate_limit = r, current_request = r * 60, last_update = now\<rparr>"

text \<open>
  \<^verbatim>\<open>RPMBucket.acquire\<close>. On denial the method prints the current budget; the second
  component of the result is the printed budget (\<open>None\<close> when nothing is printed).
\<close>

definition RPMBucket_acquire :: "RPMBucket \<Rightarrow> real \<Rightarrow> bool \<times> real option \<times> RPMBucket" where
  "RPMBucket_acquire s now =
     (let new_request = (now - last_update s) * rate_limit s;
          s1 = s\<lparr>current_request := min (RPM s) (current_request s + new_request)\<rparr>;
          s2 = s1\<lparr>last_update := now\<rparr>
      in if current_request s2 \<ge> 1
         then (True, None, s2\<lparr>current_request := current_request s2 - 1\<rparr>)
         else (False, Some (current_request s2), s2))"

fun RPMBucket_run :: "RPMBucket \<Rightarrow> real list \<Rightarrow> (bool \<times> real option \<times> RPMBucket) list" where
  "RPMBucket_run s [] = []"
| "RPMBucket_run s (now # ts) =
     (let r = RPMBucket_acquire s now in r # RPMBucket_run (snd (snd r)) ts)"

text \<open>The value that line 58 stores in \<^verbatim>\<open>self.current_request\<close>.\<close>

definition RPMBucket_refilled :: "RPMBucket \<Rightarrow> real \<Rightarrow> real" where
  "RPMBucket_refilled s now =
     min (RPM s) (current_request s + (now - last_update s) * rate_limit s)"

subsection \<open>CallBucket\<close>

record CallBucket =
  calls_per_minute :: real
  max_calls :: real
  calls :: real
  last_update :: real

datatype py_error = ZeroDivisionError

definition CallBucket_init :: "real \<Rightarrow> real \<Rightarrow> CallBucket" where
  "CallBucket_init cpm now =
     \<lparr>calls_per_minute = cpm, max_calls = cpm, calls = cpm, last_update = now\<rparr>"

definition CallBucket_acquire :: "CallBucket \<Rightarrow> real \<Rightarrow> bool \<times> CallBucket" where
  "CallBucket_acquire s now =
     (let minutes_elapsed = (now - last_update s) / 60;
          new_calls = minutes_elapsed * calls_per_minute s;
          s1 = s\<lparr>calls := min (max_calls s) (calls s + new_calls)\<rparr>;
          s2 = s1\<lparr>last_update := now\<rparr>
      in if calls s2 \<ge> 1 then (True, s2\<lparr>calls := calls s2 - 1\<rparr>) else (False, s2))"

text \<open>Python's \<^verbatim>\<open>int(x)\<close> on a float truncates towards zero.\<close>

definition py_int :: "real \<Rightarrow> int" where
  "py_int x = (if x \<ge> 0 then \<lfloor>x\<rfloor> else \<lceil>x\<rceil>)"

text \<open>
  The two queries assign to no attribute of \<^verbatim>\<open>self\<close>; the model returns the state next to
  the value, as for \<^verbatim>\<open>acquire\<close>, so that what a query does to the bucket is a statement
  about its second component.
\<close>

definition CallBucket_get_remaining_calls :: "CallBucket \<Rightarrow> real \<Rightarrow> int \<times> CallBucket" where
  "CallBucket_get_remaining_calls s now =
     (let minutes_elapsed = (now - last_update s) / 60;
          new_calls = minutes_elapsed * calls_per_minute s;
          current_calls = min (max_calls s) (calls s + new_calls)
      in (py_int current_calls, s))"

text \<open>
  \<^verbatim>\<open>get_time_to_next_call\<close> first tests the stored \<^verbatim>\<open>self.calls\<close>, then the refilled
  value. The division \<^verbatim>\<open>calls_needed / self.calls_per_minute\<close> raises
  \<^verbatim>\<open>ZeroDivisionError\<close> when \<^verbatim>\<open>calls_per_minute\<close> is zero.
\<close>

definition CallBucket_get_time_to_next_call ::
    "CallBucket \<Rightarrow> real \<Rightarrow> (py_error + real) \<times> CallBucket" where
  "CallBucket_get_time_to_next_call s now =
     (if calls s \<ge> 1 then (Inr 0, s)
      else
        let minutes_elapsed = (now - last_update s) / 60;
            new_calls = minutes_elapsed * calls_per_minute s;
            current_calls = min (max_calls s) (calls s + new_calls)
        in if current_calls \<ge> 1 then (Inr 0, s)
           else
             let calls_needed = 1 - current_calls
             in if calls_per_minute s = 0 then (Inl ZeroDivisionError, s)
                else
                  let minutes_needed = calls_needed / calls_per_minute s
                  in (Inr (minutes_needed * 60), s))"

text \<open>The refilled budget that both \<^verbatim>\<open>acquire\<close> and the queries compute (lines 90, 104, 116).\<close>

definition CallBucket_refilled :: "CallBucket \<Rightarrow> real \<Rightarrow> real" where
  "CallBucket_refilled s now =
     min (max_calls s) (calls s + ((now - last_update s) / 60) * calls_per_minute s)"

text \<open>A method call on a \<^verbatim>\<open>CallBucket\<close> and what it returns.\<close>

datatype CallBucket_call = Acquire | GetRemainingCalls | GetTimeToNextCall

datatype CallBucket_result = RBool bool | RInt int | RFloat real | RRaised py_error

fun CallBucket_step :: "CallBucket \<Rightarrow> CallBucket_call \<times> real \<Rightarrow> CallBucket_result \<times> CallBucket" where
  "CallBucket_step s (Acquire, now) =
     (let r = CallBucket_acquire s now in (RBool (fst r), snd r))"
| "CallBucket_step s (GetRemainingCalls, now) =
     (let r = CallBucket_get_remaining_calls s now in (RInt (fst r), snd r))"
| "CallBucket_step s (GetTimeToNextCall, now) =
     (let r = CallBucket_get_time_to_next_call s now
      in (case fst r of Inl e \<Rightarrow> RRaised e | Inr x \<Rightarrow> RFloat x, snd r))"

fun CallBucket_run ::
    "CallBucket \<Rightarrow> (CallBucket_call \<times> real) list \<Rightarrow> (CallBucket_result \<times> CallBucket) list" where
  "CallBucket_run s [] = []"
| "CallBucket_run s (c # cs) =
     (let r = CallBucket_step s c in r # CallBucket_run (snd r) cs)"

text \<open>The state of the bucket after a sequence of method calls.\<close>

fun CallBucket_after :: "CallBucket \<Rightarrow> (CallBucket_call \<times> real) list \<Rightarrow> CallBucket" where
  "CallBucket_after s [] = s"
| "CallBucket_after s (c # cs) = CallBucket_after (snd (CallBucket_step s c)) cs"

subsection \<open>Bucket invariants\<close>

text \<open>
  The stored budget lies between zero and the capacity. For \<^verbatim>\<open>CallBucket\<close> the invariant
  also records that the constructor sets \<^verbatim>\<open>max_calls\<close> to \<^verbatim>\<open>calls_per_minute\<close> and that no
  method assigns to either.
\<close>

definition TokenBucket_inv :: "TokenBucket \<Rightarrow> bool" where
  "TokenBucket_inv s \<longleftrightarrow>
     0 \<le> TokenBucket.tokens s \<and> TokenBucket.tokens s \<le> TokenBucket.rate_limit s"

definition RPMBucket_inv :: "RPMBucket \<Rightarrow> bool" where
  "RPMBucket_inv s \<longleftrightarrow>
     0 \<le> RPMBucket.rate_limit s \<and> 0 \<le> current_request s \<and> current_request s \<le> RPM s"

definition CallBucket_inv :: "CallBucket \<Rightarrow> bool" where
  "CallBucket_inv s \<longleftrightarrow>
     0 \<le> calls_per_minute s \<and> max_calls s = calls_per_minute s \<and>
     0 \<le> calls s \<and> calls s \<le> max_calls s"

subsection \<open>mcp2openai\<close>

text \<open>
  The values a JSON schema holds. A dict keeps its insertion order, so it is an association
  list; \<^const>\<open>AList.update\<close> is Python's item assignment (an existing key keeps its place,
  a new key is appended).
\<close>

datatype json =
    JNull
  | JBool bool
  | JInt int
  | JFloat real
  | JStr string
  | JList "json list"
  | JDict "(string \<times> json) list"

text \<open>Python's truth value of an object, as \<^verbatim>\<open>not x\<close> tests it.\<close>

fun truthy :: "json \<Rightarrow> bool" where
  "truthy JNull = False"
| "truthy (JBool b) = b"
| "truthy (JInt i) = (i \<noteq> 0)"
| "truthy (JFloat x) = (x \<noteq> 0)"
| "truthy (JStr s) = (s \<noteq> [])"
| "truthy (JList xs) = (xs \<noteq> [])"
| "truthy (JDict kvs) = (kvs \<noteq> [])"

text \<open>\<^verbatim>\<open>d.get(k, default)\<close>.\<close>

definition dict_get :: "(string \<times> json) list \<Rightarrow> string \<Rightarrow> json \<Rightarrow> json" where
  "dict_get d k dflt = (case map_of d k of None \<Rightarrow> dflt | Some v \<Rightarrow> v)"

text \<open>
  \<^verbatim>\<open>mcp_tool.inputSchema\<close> is a reference to a dict object, and the function stores that
  same reference under \<^verbatim>\<open>"parameters"\<close>: the schema dicts live in a store from addresses
  to dict contents, and the tool holds an address.
\<close>

type_synonym addr = nat

type_synonym heap = "addr \<Rightarrow> (string \<times> json) list"

record Tool =
  name :: string
  description :: "string option"
  inputSchema :: addr

text \<open>
  The dict \<^verbatim>\<open>openai_format\<close> that the function builds: its values are strings, \<^verbatim>\<open>None\<close>,
  booleans, nested dict literals, and the reference to the schema object.
\<close>

datatype pyval =
    VNone
  | VBool bool
  | VStr string
  | VRef addr
  | VDict "(string \<times> pyval) list"

definition mcp2openai :: "heap \<Rightarrow> Tool \<Rightarrow> pyval \<times> heap" where
  "mcp2openai h mcp_tool =
     (let parameters = inputSchema mcp_tool;
          openai_format =
            VDict [(''type'', VStr ''function''),
                   (''function'',
                    VDict [(''name'', VStr (name mcp_tool)),
                           (''description'',
                            (case description mcp_tool of None \<Rightarrow> VNone | Some d \<Rightarrow> VStr d)),
                           (''parameters'', VRef parameters),
                           (''strict'', VBool False)])]
      in if \<not> truthy (dict_get (h parameters) ''required'' JNull)
         then (openai_format,
               h(parameters := AList.update ''required'' (JList []) (h parameters)))
         else (openai_format, h))"

text \<open>The store in which every address holds the empty dict.\<close>

definition empty_heap :: heap where
  "empty_heap = (\<lambda>a. [])"

text \<open>What a reader of a value sees in a given store: references are followed.\<close>

fun render :: "heap \<Rightarrow> pyval \<Rightarrow> json" where
  "render h VNone = JNull"
| "render h (VBool b) = JBool b"
| "render h (VStr s) = JStr s"
| "render h (VRef a) = JDict (h a)"
| "render h (VDict kvs) = JDict (map (\<lambda>(k, v). (k, render h v)) kvs)"

text \<open>Subscripting a JSON value by a key; \<open>None\<close> where Python raises.\<close>

fun json_item :: "json \<Rightarrow> string \<Rightarrow> json option" where
  "json_item (JDict kvs) k = map_of kvs k"
| "json_item _ k = None"

section \<open>Properties\<close>

subsection \<open>One step of each limiter\<close>

lemma refill_bounds:
  fixes cap b e rate :: real
  assumes "0 \<le> b" "b \<le> cap" "0 \<le> e" "0 \<le> rate"
  shows "0 \<le> min cap (b + e * rate) \<and> min cap (b + e * rate) \<le> cap"
proof -
  have "0 \<le> e * rate" using assms by simp
  then show ?thesis using assms by simp
qed

lemma TokenBucket_acquire_eq:
  "TokenBucket_acquire s now =
     (1 \<le> TokenBucket_refilled s now,
      s\<lparr>tokens := TokenBucket_refilled s now - (if 1 \<le> TokenBucket_refilled s now then 1 else 0),
        TokenBucket.last_update := now\<rparr>)"
  by (simp add: TokenBucket_acquire_def TokenBucket_refilled_def Let_def)

lemma TokenBucket_refilled_bounds:
  assumes "TokenBucket_inv s" "TokenBucket.last_update s \<le> now"
  shows "0 \<le> TokenBucket_refilled s now \<and> TokenBucket_refilled s now \<le> TokenBucket.rate_limit s"
  unfolding TokenBucket_refilled_def
  using assms by (intro refill_bounds) (simp_all add: TokenBucket_inv_def)

lemma tb_acquire_inv:
  assumes "TokenBucket_inv s" "TokenBucket.last_update s \<le> now"
  shows "TokenBucket_inv (snd (TokenBucket_acquire s now))"
  using TokenBucket_refilled_bounds[OF assms]
  by (simp add: TokenBucket_acquire_eq TokenBucket_inv_def)

lemma tb_run_inv:
  "TokenBucket_inv s \<Longrightarrow> sorted (TokenBucket.last_update s # ts) \<Longrightarrow>
   \<forall>x \<in> set (TokenBucket_run s ts).
      TokenBucket_inv (snd x) \<and> TokenBucket.rate_limit (snd x) = TokenBucket.rate_limit s"
proof (induction ts arbitrary: s)
  case Nil
  show ?case by simp
next
  case (Cons now ts)
  let ?s' = "snd (TokenBucket_acquire s now)"
  have le: "TokenBucket.last_update s \<le> now" using Cons.prems(2) by simp
  have i: "TokenBucket_inv ?s'" by (rule tb_acquire_inv[OF Cons.prems(1) le])
  have r: "TokenBucket.rate_limit ?s' = TokenBucket.rate_limit s"
    and l: "TokenBucket.last_update ?s' = now"
    by (simp_all add: TokenBucket_acquire_eq)
  have "sorted (TokenBucket.last_update ?s' # ts)" using Cons.prems(2) l by simp
  from Cons.IH[OF i this] r i show ?case by (simp add: Let_def)
qed

lemma RPMBucket_acquire_eq:
  "RPMBucket_acquire s now =
     (1 \<le> RPMBucket_refilled s now,
      (if 1 \<le> RPMBucket_refilled s now then None else Some (RPMBucket_refilled s now)),
      s\<lparr>current_request := RPMBucket_refilled s now - (if 1 \<le> RPMBucket_refilled s now then 1 else 0),
        RPMBucket.last_update := now\<rparr>)"
  by (simp add: RPMBucket_acquire_def RPMBucket_refilled_def Let_def)

lemma RPMBucket_refilled_bounds:
  assumes "RPMBucket_inv s" "RPMBucket.last_update s \<le> now"
  shows "0 \<le> RPMBucket_refilled s now \<and> RPMBucket_refilled s now \<le> RPM s"
  unfolding RPMBucket_refilled_def
  using assms by (intro refill_bounds) (simp_all add: RPMBucket_inv_def)

lemma rpm_acquire_inv:
  assumes "RPMBucket_inv s" "RPMBucket.last_update s \<le> now"
  shows "RPMBucket_inv (snd (snd (RPMBucket_acquire s now)))"
  using RPMBucket_refilled_bounds[OF assms] assms(1)
  by (simp add: RPMBucket_acquire_eq RPMBucket_inv_def)

lemma rpm_run_inv:
  "RPMBucket_inv s \<Longrightarrow> sorted (RPMBucket.last_update s # ts) \<Longrightarrow>
   \<forall>x \<in> set (RPMBucket_run s ts).
      RPMBucket_inv (snd (snd x)) \<and> RPM (snd (snd x)) = RPM s"
proof (induction ts arbitrary: s)
  case Nil
  show ?case by simp
next
  case (Cons now ts)
  let ?s' = "snd (snd (RPMBucket_acquire s now))"
  have le: "RPMBucket.last_update s \<le> now" using Cons.prems(2) by simp
  have i: "RPMBucket_inv ?s'" by (rule rpm_acquire_inv[OF Cons.prems(1) le])
  have r: "RPM ?s' = RPM s"
    and l: "RPMBucket.last_update ?s' = now"
    by (simp_all add: RPMBucket_acquire_eq)
  have "sorted (RPMBucket.last_update ?s' # ts)" using Cons.prems(2) l by simp
  from Cons.IH[OF i this] r i show ?case by (simp add: Let_def)
qed

lemma CallBucket_acquire_eq:
  "CallBucket_acquire s now =
     (1 \<le> CallBucket_refilled s now,
      s\<lparr>calls := CallBucket_refilled s now - (if 1 \<le> CallBucket_refilled s now then 1 else 0),
        CallBucket.last_update := now\<rparr>)"
  by (simp add: CallBucket_acquire_def CallBucket_refilled_def Let_def)

lemma CallBucket_refilled_bounds:
  assumes "CallBucket_inv s" "CallBucket.last_update s \<le> now"
  shows "0 \<le> CallBucket_refilled s now \<and> CallBucket_refilled s now \<le> max_calls s"
  unfolding CallBucket_refilled_def
  using assms by (intro refill_bounds) (simp_all add: CallBucket_inv_def)

lemma CallBucket_query_state:
  "snd (CallBucket_get_remaining_calls s now) = s"
  "snd (CallBucket_get_time_to_next_call s now) = s"
  by (simp_all add: CallBucket_get_remaining_calls_def CallBucket_get_time_to_next_call_def Let_def)

lemma cb_step_inv:
  assumes "CallBucket_inv s" "CallBucket.last_update s \<le> snd c"
  shows "CallBucket_inv (snd (CallBucket_step s c))"
    and "CallBucket.last_update (snd (CallBucket_step s c)) \<le> snd c"
    and "calls_per_minute (snd (CallBucket_step s c)) = calls_per_minute s"
proof -
  obtain k now where c: "c = (k, now)" by (cases c)
  have le: "CallBucket.last_update s \<le> now" using assms(2) c by simp
  note b = CallBucket_refilled_bounds[OF assms(1) le]
  show "CallBucket_inv (snd (CallBucket_step s c))"
    using b assms(1) unfolding c
    by (cases k) (simp_all add: CallBucket_acquire_eq CallBucket_inv_def CallBucket_query_state Let_def)
  show "CallBucket.last_update (snd (CallBucket_step s c)) \<le> snd c"
    using le unfolding c
    by (cases k) (simp_all add: CallBucket_acquire_eq CallBucket_query_state Let_def)
  show "calls_per_minute (snd (CallBucket_step s c)) = calls_per_minute s"
    unfolding c
    by (cases k) (simp_all add: CallBucket_acquire_eq CallBucket_query_state Let_def)
qed

lemma cb_run_inv:
  "CallBucket_inv s \<Longrightarrow> sorted (CallBucket.last_update s # map snd cs) \<Longrightarrow>
   \<forall>x \<in> set (CallBucket_run s cs).
      CallBucket_inv (snd x) \<and> calls_per_minute (snd x) = calls_per_minute s"
proof (induction cs arbitrary: s)
  case Nil
  show ?case by simp
next
  case (Cons c cs)
  let ?s' = "snd (CallBucket_step s c)"
  have le: "CallBucket.last_update s \<le> snd c" using Cons.prems(2) by simp
  note st = cb_step_inv[OF Cons.prems(1) le]
  have "sorted (CallBucket.last_update ?s' # map snd cs)" using Cons.prems(2) st(2) by auto
  from Cons.IH[OF st(1) this] st show ?case by (simp add: Let_def)
qed

lemma cb_after_inv:
  "CallBucket_inv s \<Longrightarrow> sorted (CallBucket.last_update s # map snd cs @ [now]) \<Longrightarrow>
   CallBucket_inv (CallBucket_after s cs) \<and> calls_per_minute (CallBucket_after s cs) = calls_per_minute s
   \<and> CallBucket.last_update (CallBucket_after s cs) \<le> now"
proof (induction cs arbitrary: s)
  case Nil
  then show ?case by simp
next
  case (Cons c cs)
  let ?s' = "snd (CallBucket_step s c)"
  have le: "CallBucket.last_update s \<le> snd c" using Cons.prems(2) by simp
  note st = cb_step_inv[OF Cons.prems(1) le]
  have "sorted (CallBucket.last_update ?s' # map snd cs @ [now])" using Cons.prems(2) st(2) by auto
  from Cons.IH[OF st(1) this] st show ?case by simp
qed

subsection \<open>Capacity bound\<close>

text \<open>
  C1. For each of the three limiters built with a positive rate, and every sequence of calls
  whose clock readings never run backwards (\<open>sorted\<close>, starting at the construction time
  \<open>t0\<close>), the stored budget is within \<open>[0, capacity]\<close> at construction and after every
  call: \<^verbatim>\<open>tokens\<close> within \<open>[0, rate_limit]\<close>, \<^verbatim>\<open>current_request\<close> within
  \<open>[0, rate_limit * 60]\<close>, \<^verbatim>\<open>calls\<close> within \<open>[0, calls_per_minute]\<close>. For \<^verbatim>\<open>CallBucket\<close>
  the sequence may mix \<^verbatim>\<open>acquire\<close> with the two queries.
\<close>

theorem budget_within_capacity:
  assumes "0 < r" and "sorted (t0 # ts)" and "sorted (t0 # map snd cs)"
  shows "(0 \<le> tokens (TokenBucket_init r t0) \<and> tokens (TokenBucket_init r t0) \<le> r \<and>
          (\<forall>x \<in> set (TokenBucket_run (TokenBucket_init r t0) ts).
              0 \<le> tokens (snd x) \<and> tokens (snd x) \<le> r)) \<and>
         (0 \<le> current_request (RPMBucket_init r t0) \<and> current_request (RPMBucket_init r t0) \<le> r * 60 \<and>
          (\<forall>x \<in> set (RPMBucket_run (RPMBucket_init r t0) ts).
              0 \<le> current_request (snd (snd x)) \<and> current_request (snd (snd x)) \<le> r * 60)) \<and>
         (0 \<le> calls (CallBucket_init r t0) \<and> calls (CallBucket_init r t0) \<le> r \<and>
          (\<forall>x \<in> set (CallBucket_run (CallBucket_init r t0) cs).
              0 \<le> calls (snd x) \<and> calls (snd x) \<le> r))"
proof -
  have tb: "TokenBucket_inv (TokenBucket_init r t0)"
    using assms(1) by (simp add: TokenBucket_inv_def TokenBucket_init_def)
  have tbs: "sorted (TokenBucket.last_update (TokenBucket_init r t0) # ts)"
    using assms(2) by (simp add: TokenBucket_init_def)
  have 1: "\<forall>x \<in> set (TokenBucket_run (TokenBucket_init r t0) ts).
              0 \<le> tokens (snd x) \<and> tokens (snd x) \<le> r"
    using tb_run_inv[OF tb tbs] by (auto simp add: TokenBucket_inv_def TokenBucket_init_def)
  have rb: "RPMBucket_inv (RPMBucket_init r t0)"
    using assms(1) by (simp add: RPMBucket_inv_def RPMBucket_init_def)
  have rbs: "sorted (RPMBucket.last_update (RPMBucket_init r t0) # ts)"
    using assms(2) by (simp add: RPMBucket_init_def)
  have 2: "\<forall>x \<in> set (RPMBucket_run (RPMBucket_init r t0) ts).
              0 \<le> current_request (snd (snd x)) \<and> current_request (snd (snd x)) \<le> r * 60"
    using rpm_run_inv[OF rb rbs] by (auto simp add: RPMBucket_inv_def RPMBucket_init_def)
  have cb: "CallBucket_inv (CallBucket_init r t0)"
    using assms(1) by (simp add: CallBucket_inv_def CallBucket_init_def)
  have cbs: "sorted (CallBucket.last_update (CallBucket_init r t0) # map snd cs)"
    using assms(3) by (simp add: CallBucket_init_def)
  have 3: "\<forall>x \<in> set (CallBucket_run (CallBucket_init r t0) cs).
              0 \<le> calls (snd x) \<and> calls (snd x) \<le> r"
    using cb_run_inv[OF cb cbs] by (auto simp add: CallBucket_inv_def CallBucket_init_def)
  have 0: "0 \<le> r" "0 \<le> r * 60" using assms(1) by simp_all
  show ?thesis using 0 1 2 3
    by (simp add: TokenBucket_init_def RPMBucket_init_def CallBucket_init_def)
qed

theorem budget_within_capacity_witness:
  "(0::real) < 2 \<and> sorted [0::real, 0, 0, 1/4, 10] \<and>
   sorted ((0::real) # map snd [(Acquire, 0), (GetRemainingCalls, 1), (Acquire, 1), (Acquire, 2::real)]) \<and>
   map (\<lambda>x. tokens (snd x)) (TokenBucket_run (TokenBucket_init 2 0) [0, 0, 1/4, 10])
     = [1, 0, 1/2, 1] \<and>
   map (\<lambda>x. current_request (snd (snd x))) (RPMBucket_run (RPMBucket_init 2 0) [0, 0, 1/4, 10])
     = [119, 118, 235/2, 119] \<and>
   map (\<lambda>x. calls (snd x))
     (CallBucket_run (CallBucket_init 2 0)
        [(Acquire, 0), (GetRemainingCalls, 1), (Acquire, 1), (Acquire, 2)])
     = [1, 1, 1/30, 1/15]"
  using budget_within_capacity [of 2 0 "[0, 0, 1/4, 10]"
      "[(Acquire, 0), (GetRemainingCalls, 1), (Acquire, 1), (Acquire, 2)]"]
  by (simp add: TokenBucket_init_def RPMBucket_init_def CallBucket_init_def
      TokenBucket_acquire_def RPMBucket_acquire_def CallBucket_acquire_def
      CallBucket_get_remaining_calls_def Let_def)

subsection \<open>Worked examples\<close>

text \<open>
  C4. A \<^verbatim>\<open>TokenBucket\<close> built with \<^verbatim>\<open>rate_limit = 2\<close> at any clock reading \<open>t0\<close> starts with
  2 tokens. Two \<^verbatim>\<open>acquire\<close> calls at \<open>t0\<close> return true, a third call at \<open>t0\<close> returns
  false, and a fourth call half a second later returns true.
\<close>

theorem TokenBucket_saturation_example:
  "TokenBucket.tokens (TokenBucket_init 2 t0) = 2 \<and>
   map fst (TokenBucket_run (TokenBucket_init 2 t0) [t0, t0, t0, t0 + 1/2])
     = [True, True, False, True]"
  by (simp add: TokenBucket_init_def TokenBucket_acquire_def Let_def)

lemma rpm_acquire_zero_elapsed:
  "RPMBucket.last_update s = t \<Longrightarrow> current_request s \<le> RPM s \<Longrightarrow>
   RPMBucket_acquire s t =
     (if current_request s \<ge> 1 then (True, None, s\<lparr>current_request := current_request s - 1\<rparr>)
      else (False, Some (current_request s), s))"
  by (auto simp add: RPMBucket_acquire_def Let_def min_def)

lemma rpm_run_burst:
  "RPMBucket.last_update s = t \<Longrightarrow> current_request s = real n + c \<Longrightarrow> 0 \<le> c \<Longrightarrow>
   current_request s \<le> RPM s \<Longrightarrow>
   map fst (RPMBucket_run s (replicate n t @ ts)) =
     replicate n True @ map fst (RPMBucket_run (s\<lparr>current_request := c\<rparr>) ts)"
proof (induction n arbitrary: s)
  case 0
  then have "s\<lparr>current_request := c\<rparr> = s" by simp
  then show ?case by simp
next
  case (Suc n)
  let ?s' = "s\<lparr>current_request := current_request s - 1\<rparr>"
  have a: "RPMBucket_acquire s t = (True, None, ?s')"
    using Suc.prems by (simp add: rpm_acquire_zero_elapsed)
  have "map fst (RPMBucket_run ?s' (replicate n t @ ts)) =
        replicate n True @ map fst (RPMBucket_run (?s'\<lparr>current_request := c\<rparr>) ts)"
    using Suc.prems by (intro Suc.IH) simp_all
  then show ?case using a
    by (simp add: Let_def)
qed

text \<open>
  C5. An \<^verbatim>\<open>RPMBucket\<close> built with \<^verbatim>\<open>rate_limit = 1\<close> at any clock reading \<open>t0\<close> starts with a
  budget of 60. Of 61 \<^verbatim>\<open>acquire\<close> calls at \<open>t0\<close> (no time elapses), the first 60 return
  true and the 61st returns false.
\<close>

theorem RPMBucket_scaling_example:
  "current_request (RPMBucket_init 1 t0) = 60 \<and>
   map fst (RPMBucket_run (RPMBucket_init 1 t0) (replicate 61 t0)) = replicate 60 True @ [False]"
proof -
  let ?s = "RPMBucket_init 1 t0"
  have "(61::nat) = Suc 60" by simp
  then have "replicate 61 t0 = t0 # replicate 60 t0" by (simp only: replicate_Suc)
  also have "\<dots> = replicate 60 t0 @ [t0]" by (simp only: replicate_append_same)
  finally have r: "replicate 61 t0 = replicate 60 t0 @ [t0]" .
  have "map fst (RPMBucket_run ?s (replicate 60 t0 @ [t0])) =
        replicate 60 True @ map fst (RPMBucket_run (?s\<lparr>current_request := 0\<rparr>) [t0])"
    by (rule rpm_run_burst) (simp_all add: RPMBucket_init_def)
  moreover have "map fst (RPMBucket_run (?s\<lparr>current_request := 0\<rparr>) [t0]) = [False]"
    by (simp add: RPMBucket_init_def RPMBucket_acquire_def Let_def)
  ultimately show ?thesis using r by (simp add: RPMBucket_init_def)
qed

subsection \<open>A rate below one\<close>

lemma tb_acquire_low:
  "TokenBucket.rate_limit s < 1 \<Longrightarrow>
   TokenBucket_acquire s now =
     (False, s\<lparr>tokens := TokenBucket_refilled s now, TokenBucket.last_update := now\<rparr>)"
  by (simp add: TokenBucket_acquire_def TokenBucket_refilled_def Let_def)

lemma tb_run_low:
  "TokenBucket.rate_limit s < 1 \<Longrightarrow>
   map fst (TokenBucket_run s ts) = replicate (length ts) False \<and>
   (\<forall>x \<in> set (TokenBucket_run s ts). tokens (snd x) < 1)"
proof (induction ts arbitrary: s)
  case Nil
  show ?case by simp
next
  case (Cons now ts)
  let ?s' = "s\<lparr>tokens := TokenBucket_refilled s now, TokenBucket.last_update := now\<rparr>"
  have "TokenBucket.rate_limit ?s' < 1" using Cons.prems by simp
  then have "map fst (TokenBucket_run ?s' ts) = replicate (length ts) False \<and>
      (\<forall>x \<in> set (TokenBucket_run ?s' ts). tokens (snd x) < 1)"
    by (rule Cons.IH)
  moreover have "TokenBucket_refilled s now < 1"
    using Cons.prems by (simp add: TokenBucket_refilled_def)
  ultimately show ?case using Cons.prems by (simp add: Let_def tb_acquire_low)
qed

text \<open>
  C10. A \<^verbatim>\<open>TokenBucket\<close> built with \<open>0 < rate_limit < 1\<close> admits nothing: every
  \<^verbatim>\<open>acquire\<close> of every sequence of calls returns false, whatever the clock readings are
  (they need not even be ordered), and the stored token count stays below 1.
\<close>

theorem TokenBucket_rate_below_one_never_admits:
  assumes "0 < r" and "r < 1"
  shows "map fst (TokenBucket_run (TokenBucket_init r t0) ts) = replicate (length ts) False \<and>
         (\<forall>x \<in> set (TokenBucket_run (TokenBucket_init r t0) ts). tokens (snd x) < 1)"
proof -
  have "TokenBucket.rate_limit (TokenBucket_init r t0) < 1"
    using assms(2) by (simp add: TokenBucket_init_def)
  then show ?thesis by (rule tb_run_low)
qed

theorem TokenBucket_rate_below_one_never_admits_witness:
  "(0::real) < 1/2 \<and> (1/2::real) < 1 \<and>
   map fst (TokenBucket_run (TokenBucket_init (1/2) 0) [0, 10, 1000]) = [False, False, False] \<and>
   map (\<lambda>x. tokens (snd x)) (TokenBucket_run (TokenBucket_init (1/2) 0) [0, 10, 1000])
     = [1/2, 1/2, 1/2]"
  using TokenBucket_rate_below_one_never_admits [of "1/2" 0 "[0, 10, 1000]"]
  by (simp add: TokenBucket_init_def TokenBucket_acquire_def Let_def)

subsection \<open>Admission and the stored state\<close>

text \<open>
  C2, as the code has it. For each limiter and every call of \<^verbatim>\<open>acquire\<close>: the call first
  stores the refilled budget and the clock reading. If it returns true, the stored budget is
  the refilled value minus one; if it returns false, nothing is deducted and the stored
  budget is the refilled value. In both cases \<^verbatim>\<open>last_update\<close> becomes \<open>now\<close> and no other
  field changes.
\<close>

theorem acquire_admission_effect:
  "(fst (TokenBucket_acquire s1 now) \<longrightarrow>
      snd (TokenBucket_acquire s1 now) =
        s1\<lparr>tokens := TokenBucket_refilled s1 now - 1, TokenBucket.last_update := now\<rparr>) \<and>
   (\<not> fst (TokenBucket_acquire s1 now) \<longrightarrow>
      snd (TokenBucket_acquire s1 now) =
        s1\<lparr>tokens := TokenBucket_refilled s1 now, TokenBucket.last_update := now\<rparr>) \<and>
   (fst (RPMBucket_acquire s2 now) \<longrightarrow>
      snd (snd (RPMBucket_acquire s2 now)) =
        s2\<lparr>current_request := RPMBucket_refilled s2 now - 1, RPMBucket.last_update := now\<rparr>) \<and>
   (\<not> fst (RPMBucket_acquire s2 now) \<longrightarrow>
      snd (snd (RPMBucket_acquire s2 now)) =
        s2\<lparr>current_request := RPMBucket_refilled s2 now, RPMBucket.last_update := now\<rparr>) \<and>
   (fst (CallBucket_acquire s3 now) \<longrightarrow>
      snd (CallBucket_acquire s3 now) =
        s3\<lparr>calls := CallBucket_refilled s3 now - 1, CallBucket.last_update := now\<rparr>) \<and>
   (\<not> fst (CallBucket_acquire s3 now) \<longrightarrow>
      snd (CallBucket_acquire s3 now) =
        s3\<lparr>calls := CallBucket_refilled s3 now, CallBucket.last_update := now\<rparr>)"
  by (simp add: TokenBucket_acquire_eq RPMBucket_acquire_eq CallBucket_acquire_eq)

theorem acquire_admission_effect_witness:
  "(fst (TokenBucket_acquire (TokenBucket_init 2 0) 0) \<and>
    snd (TokenBucket_acquire (TokenBucket_init 2 0) 0) =
      \<lparr>TokenBucket.rate_limit = 2, tokens = 1, last_update = 0\<rparr> \<and>
    fst (RPMBucket_acquire (RPMBucket_init 2 0) 0) \<and>
    snd (snd (RPMBucket_acquire (RPMBucket_init 2 0) 0)) =
      \<lparr>RPM = 120, rate_limit = 2, current_request = 119, last_update = 0\<rparr> \<and>
    fst (CallBucket_acquire (CallBucket_init 2 0) 0) \<and>
    snd (CallBucket_acquire (CallBucket_init 2 0) 0) =
      \<lparr>calls_per_minute = 2, max_calls = 2, calls = 1, last_update = 0\<rparr>) \<and>
   (\<not> fst (TokenBucket_acquire \<lparr>TokenBucket.rate_limit = 2, tokens = 0, last_update = 0\<rparr> (1/4)) \<and>
    snd (TokenBucket_acquire \<lparr>TokenBucket.rate_limit = 2, tokens = 0, last_update = 0\<rparr> (1/4)) =
      \<lparr>TokenBucket.rate_limit = 2, tokens = 1/2, last_update = 1/4\<rparr> \<and>
    \<not> fst (RPMBucket_acquire
             \<lparr>RPM = 120, rate_limit = 2, current_request = 0, last_update = 0\<rparr> (1/4)) \<and>
    snd (snd (RPMBucket_acquire
             \<lparr>RPM = 120, rate_limit = 2, current_request = 0, last_update = 0\<rparr> (1/4))) =
      \<lparr>RPM = 120, rate_limit = 2, current_request = 1/2, last_update = 1/4\<rparr> \<and>
    \<not> fst (CallBucket_acquire
             \<lparr>calls_per_minute = 2, max_calls = 2, calls = 0, last_update = 0\<rparr> (1/4)) \<and>
    snd (CallBucket_acquire
             \<lparr>calls_per_minute = 2, max_calls = 2, calls = 0, last_update = 0\<rparr> (1/4)) =
      \<lparr>calls_per_minute = 2, max_calls = 2, calls = 1/120, last_update = 1/4\<rparr>)"
  using acquire_admission_effect [of "TokenBucket_init 2 0" 0 "RPMBucket_init 2 0" "CallBucket_init 2 0"]
    acquire_admission_effect [of "\<lparr>TokenBucket.rate_limit = 2, tokens = 0, last_update = 0\<rparr>" "1/4"
      "\<lparr>RPM = 120, rate_limit = 2, current_request = 0, last_update = 0\<rparr>"
      "\<lparr>calls_per_minute = 2, max_calls = 2, calls = 0, last_update = 0\<rparr>"]
  by (simp add: TokenBucket_init_def RPMBucket_init_def CallBucket_init_def
      TokenBucket_refilled_def RPMBucket_refilled_def CallBucket_refilled_def
      TokenBucket_acquire_def RPMBucket_acquire_def CallBucket_acquire_def Let_def)

text \<open>
  A denied call changes the stored state. A \<^verbatim>\<open>TokenBucket\<close> built with \<^verbatim>\<open>rate_limit = 2\<close> at
  time 0 is drained by two calls at time 0; a third call at time 1/4 returns false, and the
  state after it (0.5 tokens, \<^verbatim>\<open>last_update\<close> 0.25) differs from the state before it
  (0 tokens, \<^verbatim>\<open>last_update\<close> 0).
\<close>

theorem TokenBucket_denied_acquire_changes_state:
  "\<not> fst (TokenBucket_acquire
            (snd (TokenBucket_acquire (snd (TokenBucket_acquire (TokenBucket_init 2 0) 0)) 0)) (1/4)) \<and>
   snd (TokenBucket_acquire
            (snd (TokenBucket_acquire (snd (TokenBucket_acquire (TokenBucket_init 2 0) 0)) 0)) (1/4))
     \<noteq> snd (TokenBucket_acquire (snd (TokenBucket_acquire (TokenBucket_init 2 0) 0)) 0)"
  by (simp add: TokenBucket_init_def TokenBucket_acquire_def Let_def)

subsection \<open>The introspection queries of CallBucket\<close>

lemma cb_time_inv:
  assumes "CallBucket_inv s" "0 < calls_per_minute s" "CallBucket.last_update s \<le> now"
  shows "fst (CallBucket_get_time_to_next_call s now) =
         (if 1 \<le> CallBucket_refilled s now then Inr 0
          else Inr (((1 - CallBucket_refilled s now) / calls_per_minute s) * 60))"
proof (cases "1 \<le> calls s")
  case True
  have "0 \<le> ((now - CallBucket.last_update s) / 60) * calls_per_minute s"
    using assms by simp
  then have "1 \<le> CallBucket_refilled s now"
    using True assms(1) unfolding CallBucket_refilled_def CallBucket_inv_def by simp
  then show ?thesis using True by (simp add: CallBucket_get_time_to_next_call_def)
next
  case False
  then show ?thesis using assms(2)
    by (simp add: CallBucket_get_time_to_next_call_def CallBucket_refilled_def Let_def)
qed

text \<open>
  On every state reached from the constructor by calls whose clock readings never decrease,
  queried at a clock reading that is not earlier, the test on the stored budget and the test
  on the refilled budget agree.
\<close>

lemma cb_time_reachable:
  assumes "0 < cpm" and "sorted (t0 # map snd cs @ [now])"
  shows "fst (CallBucket_get_time_to_next_call (CallBucket_after (CallBucket_init cpm t0) cs) now) =
         (if 1 \<le> CallBucket_refilled (CallBucket_after (CallBucket_init cpm t0) cs) now then Inr 0
          else Inr (((1 - CallBucket_refilled (CallBucket_after (CallBucket_init cpm t0) cs) now) / cpm) * 60))"
proof -
  let ?s = "CallBucket_after (CallBucket_init cpm t0) cs"
  have i: "CallBucket_inv (CallBucket_init cpm t0)"
    using assms(1) by (simp add: CallBucket_inv_def CallBucket_init_def)
  have "sorted (CallBucket.last_update (CallBucket_init cpm t0) # map snd cs @ [now])"
    using assms(2) by (simp add: CallBucket_init_def)
  from cb_after_inv[OF i this]
  have a: "CallBucket_inv ?s" and b: "calls_per_minute ?s = cpm" and c: "CallBucket.last_update ?s \<le> now"
    by (simp_all add: CallBucket_init_def)
  have "0 < calls_per_minute ?s" using b assms(1) by simp
  from cb_time_inv[OF a this c] show ?thesis using b by simp
qed





lemma cb_query_step: "fst c \<noteq> Acquire \<Longrightarrow> snd (CallBucket_step s c) = s"
  by (cases c, cases "fst c") (simp_all add: CallBucket_query_state Let_def)

lemma cb_queries_run:
  "\<forall>c \<in> set qs. fst c \<noteq> Acquire \<Longrightarrow>
   (\<forall>x \<in> set (CallBucket_run s qs). snd x = s) \<and>
   CallBucket_run s (qs @ cs) = CallBucket_run s qs @ CallBucket_run s cs"
proof (induction qs)
  case Nil
  show ?case by simp
next
  case (Cons q qs)
  then have "snd (CallBucket_step s q) = s" by (simp add: cb_query_step)
  then show ?case using Cons by (simp add: Let_def)
qed

lemma cb_queries_after:
  "\<forall>c \<in> set qs. fst c \<noteq> Acquire \<Longrightarrow> CallBucket_after s qs = s"
  by (induction qs) (simp_all add: cb_query_step)

lemma cb_run_length: "length (CallBucket_run s cs) = length cs"
  by (induction cs arbitrary: s) (simp_all add: Let_def)

text \<open>
  C8. \<^verbatim>\<open>get_remaining_calls\<close> and \<^verbatim>\<open>get_time_to_next_call\<close> are read-only. For every
  \<^verbatim>\<open>CallBucket\<close> state \<open>s\<close> and every sequence \<open>qs\<close> of queries (no \<^verbatim>\<open>acquire\<close> among them), at
  any clock readings: the state after each query is \<open>s\<close>; the calls \<open>cs\<close> made after the
  queries return what they return, and leave the states they leave, when made on \<open>s\<close> with
  no query before them; in particular the next \<^verbatim>\<open>acquire\<close> does.
\<close>

theorem CallBucket_queries_read_only:
  assumes "\<forall>c \<in> set qs. fst c \<noteq> Acquire"
  shows "(\<forall>x \<in> set (CallBucket_run s qs). snd x = s) \<and>
         CallBucket_after s qs = s \<and>
         drop (length qs) (CallBucket_run s (qs @ cs)) = CallBucket_run s cs \<and>
         CallBucket_acquire (CallBucket_after s qs) now = CallBucket_acquire s now"
proof -
  have a: "CallBucket_after s qs = s" by (rule cb_queries_after[OF assms])
  have "length (CallBucket_run s qs) = length qs" by (rule cb_run_length)
  then show ?thesis using cb_queries_run[OF assms, of s cs] a by simp
qed

theorem CallBucket_queries_read_only_witness:
  "map (\<lambda>c. fst c \<noteq> Acquire) [(GetRemainingCalls, 1::real), (GetTimeToNextCall, 2), (GetRemainingCalls, 30)]
     = [True, True, True] \<and>
   CallBucket_after (CallBucket_init 1 0)
       [(GetRemainingCalls, 1), (GetTimeToNextCall, 2), (GetRemainingCalls, 30)]
     = CallBucket_init 1 0 \<and>
   map fst (CallBucket_run (CallBucket_init 1 0)
       [(GetRemainingCalls, 1), (GetTimeToNextCall, 2), (GetRemainingCalls, 30), (Acquire, 30)])
     = [RInt 1, RFloat 0, RInt 1, RBool True] \<and>
   map fst (CallBucket_run (CallBucket_init 1 0) [(Acquire, 30)]) = [RBool True]"
  using CallBucket_queries_read_only
    [of "[(GetRemainingCalls, 1), (GetTimeToNextCall, 2), (GetRemainingCalls, 30)]"
        "CallBucket_init 1 0" "[(Acquire, 30)]" 30]
  by (simp add: CallBucket_init_def CallBucket_get_remaining_calls_def
      CallBucket_get_time_to_next_call_def CallBucket_acquire_def py_int_def Let_def)

subsection \<open>Schema translation\<close>

lemma update_absent: "map_of d k = None \<Longrightarrow> AList.update k v d = d @ [(k, v)]"
  by (induction d) auto

lemma mcp2openai_fst:
  "fst (mcp2openai h t) =
     VDict [(''type'', VStr ''function''),
            (''function'',
             VDict [(''name'', VStr (name t)),
                    (''description'', (case description t of None \<Rightarrow> VNone | Some d \<Rightarrow> VStr d)),
                    (''parameters'', VRef (inputSchema t)),
                    (''strict'', VBool False)])]"
  by (simp add: mcp2openai_def Let_def)

lemma mcp2openai_snd:
  "snd (mcp2openai h t) =
     (if truthy (dict_get (h (inputSchema t)) ''required'' JNull) then h
      else h(inputSchema t := AList.update ''required'' (JList []) (h (inputSchema t))))"
  by (simp add: mcp2openai_def Let_def)

text \<open>
  C6. For a tool whose input schema has no \<^verbatim>\<open>required\<close> key, what \<^verbatim>\<open>mcp2openai\<close> returns
  reads as \<^verbatim>\<open>{type: "function", function: {name, description, parameters, strict: false}}\<close>
  with the tool's name and description, and as \<^verbatim>\<open>parameters\<close> the input schema followed by
  \<^verbatim>\<open>required: []\<close>.
\<close>

theorem mcp2openai_without_required:
  assumes "map_of (h (inputSchema t)) ''required'' = None"
  shows "render (snd (mcp2openai h t)) (fst (mcp2openai h t)) =
           JDict [(''type'', JStr ''function''),
                  (''function'',
                   JDict [(''name'', JStr (name t)),
                          (''description'', (case description t of None \<Rightarrow> JNull | Some d \<Rightarrow> JStr d)),
                          (''parameters'', JDict (h (inputSchema t) @ [(''required'', JList [])])),
                          (''strict'', JBool False)])]"
proof -
  have "dict_get (h (inputSchema t)) ''required'' JNull = JNull"
    using assms by (simp add: dict_get_def)
  then have "snd (mcp2openai h t) = h(inputSchema t := h (inputSchema t) @ [(''required'', JList [])])"
    using assms by (simp add: mcp2openai_snd update_absent)
  then show ?thesis
    by (cases "description t") (simp_all add: mcp2openai_fst)
qed

theorem mcp2openai_without_required_witness:
  "map_of ((empty_heap(0 := [(''type'', JStr ''object''), (''properties'', JDict [(''q'', JDict [(''type'', JStr ''string'')])])]))
            (inputSchema \<lparr>name = ''x'', description = Some ''d'', inputSchema = 0\<rparr>)) ''required'' = None \<and>
   render (snd (mcp2openai (empty_heap(0 := [(''type'', JStr ''object''), (''properties'', JDict [(''q'', JDict [(''type'', JStr ''string'')])])]))
                  \<lparr>name = ''x'', description = Some ''d'', inputSchema = 0\<rparr>))
          (fst (mcp2openai (empty_heap(0 := [(''type'', JStr ''object''), (''properties'', JDict [(''q'', JDict [(''type'', JStr ''string'')])])]))
                  \<lparr>name = ''x'', description = Some ''d'', inputSchema = 0\<rparr>)) =
     JDict [(''type'', JStr ''function''),
            (''function'',
             JDict [(''name'', JStr ''x''),
                    (''description'', JStr ''d''),
                    (''parameters'', JDict [(''type'', JStr ''object''), (''properties'', JDict [(''q'', JDict [(''type'', JStr ''string'')])]), (''required'', JList [])]),
                    (''strict'', JBool False)])]"
  using mcp2openai_without_required [of "empty_heap(0 := [(''type'', JStr ''object''), (''properties'', JDict [(''q'', JDict [(''type'', JStr ''string'')])])])"
               "\<lparr>name = ''x'', description = Some ''d'', inputSchema = 0\<rparr>"]
  by simp

text \<open>
  C9. For a tool whose input schema binds \<^verbatim>\<open>required\<close> to a non-empty list, \<^verbatim>\<open>mcp2openai\<close>
  changes nothing in the store, and \<^verbatim>\<open>result["function"]["parameters"]["required"]\<close> is
  that same list.
\<close>

theorem mcp2openai_keeps_required:
  assumes "map_of (h (inputSchema t)) ''required'' = Some (JList (x # xs))"
  shows "snd (mcp2openai h t) = h \<and>
         Option.bind (Option.bind (json_item (render (snd (mcp2openai h t)) (fst (mcp2openai h t))) ''function'')
                        (\<lambda>f. json_item f ''parameters''))
           (\<lambda>p. json_item p ''required'') = Some (JList (x # xs))"
proof -
  have "dict_get (h (inputSchema t)) ''required'' JNull = JList (x # xs)"
    using assms by (simp add: dict_get_def)
  then have "snd (mcp2openai h t) = h" by (simp add: mcp2openai_snd)
  then show ?thesis using assms by (simp add: mcp2openai_fst)
qed

theorem mcp2openai_keeps_required_witness:
  "map_of ((empty_heap(0 := [(''type'', JStr ''object''), (''required'', JList [JStr ''q''])]))
            (inputSchema \<lparr>name = ''x'', description = Some ''d'', inputSchema = 0\<rparr>)) ''required'' = Some (JList (JStr ''q'' # [])) \<and>
   snd (mcp2openai (empty_heap(0 := [(''type'', JStr ''object''), (''required'', JList [JStr ''q''])]))
                  \<lparr>name = ''x'', description = Some ''d'', inputSchema = 0\<rparr>) 0 =
      [(''type'', JStr ''object''), (''required'', JList [JStr ''q''])]"
  using mcp2openai_keeps_required [of "empty_heap(0 := [(''type'', JStr ''object''), (''required'', JList [JStr ''q''])])"
               "\<lparr>name = ''x'', description = Some ''d'', inputSchema = 0\<rparr>" "JStr ''q''" "[]"]
  by simp




end
